theory Spec2Isabelle
  imports Main
begin

section \<open>Data model\<close>

text \<open>
  The hooks of \<^verbatim>\<open>src/hooks/chat/useMessages.tsx\<close> work on the SDK's \<^verbatim>\<open>Message\<close>
  objects. The record below has the properties the hooks read: \<^verbatim>\<open>id\<close> (written
  \<open>id'\<close>, since \<open>id\<close> is HOL's identity function), \<^verbatim>\<open>conversation_id\<close>,
  \<^verbatim>\<open>created_by\<close> and \<^verbatim>\<open>created_at\<close> (a number), next to the payload and the
  reaction collection.
\<close>

text \<open>
  Modelled from the spec: the reaction collection of a message and the reaction event.
  Their declarations belong to \<^verbatim>\<open>@/lib/reaction\<close> and the SDK, which are not among
  the sources. The specification describes an entry of the collection as
  \<^verbatim>\<open>{reactorId, reactionId, type}\<close> and an event as
  \<^verbatim>\<open>{messageId, reactionId, type, actorId}\<close>.
\<close>

record reactor =
  reactorId :: string
  reactor_reactionId :: string
  reactor_type :: string

record reaction_event =
  messageId :: string
  reactionId :: string
  rtype :: string
  actorId :: string

record message =
  id' :: string
  conversation_id :: string
  created_by :: string
  created_at :: nat
  content :: string
  reactions :: "reactor list"

text \<open>
  \<^verbatim>\<open>botConfig\<close> is imported from \<^verbatim>\<open>@/config/bots\<close>; the hook reads its
  \<^verbatim>\<open>usernamePrefix\<close> and \<^verbatim>\<open>channelName\<close>. The configuration is a parameter of
  every function that reads it.
\<close>

record bot_config =
  usernamePrefix :: string
  channelName :: string

text \<open>
  Modelled from the spec: an entry of the bot script,
  \<^verbatim>\<open>{ offsetFromAnchor: duration, author, body }\<close>. The script is data of
  \<^verbatim>\<open>useBots\<close>, which is not among the sources.
\<close>

record bot_entry =
  offsetFromAnchor :: nat
  author :: string
  body :: string

text \<open>A message with the given id, channel, author and creation time, for examples.\<close>

definition msg :: "string \<Rightarrow> string \<Rightarrow> string \<Rightarrow> nat \<Rightarrow> message" where
  "msg i c a t =
     \<lparr>id' = i, conversation_id = c, created_by = a, created_at = t,
      content = [], reactions = []\<rparr>"

section \<open>Library functions the hooks call\<close>

text \<open>
  \<^verbatim>\<open>uniq(array, iteratee)\<close> of underscore walks the array once; it keeps a value when
  the iteratee's result for it is not yet among the results seen, and records that
  result. So the first value of every key survives, in the order of the array.
\<close>

fun uniq_loop :: "('a \<Rightarrow> 'k) \<Rightarrow> 'a list \<Rightarrow> 'k list \<Rightarrow> 'a list \<Rightarrow> 'a list" where
  "uniq_loop iteratee [] seen result = result"
| "uniq_loop iteratee (v # rest) seen result =
     (let computed = iteratee v in
      if computed \<in> set seen then uniq_loop iteratee rest seen result
      else uniq_loop iteratee rest (seen @ [computed]) (result @ [v]))"

definition uniq :: "'a list \<Rightarrow> ('a \<Rightarrow> 'k) \<Rightarrow> 'a list" where
  "uniq array iteratee = uniq_loop iteratee array [] []"

text \<open>
  The same walk with the seen keys as a set and the result built front to back; the
  proofs go through it (lemma \<open>uniq_first_by\<close>).
\<close>

fun first_by :: "('a \<Rightarrow> 'k) \<Rightarrow> 'k set \<Rightarrow> 'a list \<Rightarrow> 'a list" where
  "first_by f S [] = []"
| "first_by f S (x # xs) =
     (if f x \<in> S then first_by f S xs else x # first_by f (insert (f x) S) xs)"

text \<open>\<^verbatim>\<open>s.startsWith(searchString)\<close>.\<close>

definition startsWith :: "string \<Rightarrow> string \<Rightarrow> bool" where
  "startsWith s searchString = (take (length searchString) s = searchString)"

text \<open>\<^verbatim>\<open>xs.at(-1)\<close>: the last element, \<^verbatim>\<open>undefined\<close> on the empty array.\<close>

definition at_last :: "'a list \<Rightarrow> 'a option" where
  "at_last xs = (case xs of [] \<Rightarrow> None | _ # _ \<Rightarrow> Some (last xs))"

section \<open>The conversation view model: \<^verbatim>\<open>useMessagesWrapped\<close>\<close>

text \<open>
  The hook's state: the two \<^verbatim>\<open>useState\<close> cells, the \<^verbatim>\<open>pageCursor\<close> ref, and one
  cell per run of the loading effect for that run's local variable \<^verbatim>\<open>mounted\<close>
  (the closure of \<^verbatim>\<open>initMessages\<close> and the effect's cleanup share it).
\<close>

record hook_state =
  messages :: "message list"
  isLoading :: bool
  pageCursor :: "string option"
  mounted :: "bool list"

record query_options =
  limit :: nat
  direction :: string
  startId :: "string option"

text \<open>
  The promise of \<^verbatim>\<open>conversation.messages.query\<close> settles with a page or rejects; the
  promise of \<^verbatim>\<open>initMessages()\<close>, which nothing awaits or catches, is fulfilled or
  is an unhandled rejection.
\<close>

datatype query_outcome = Resolved "message list" | Rejected

datatype promise = Fulfilled | Unhandled_rejection

definition initial_state :: hook_state where
  "initial_state = \<lparr>messages = [], isLoading = False, pageCursor = None, mounted = []\<rparr>"

text \<open>The effect on \<^verbatim>\<open>[channelName]\<close>: \<^verbatim>\<open>setMessages([])\<close>.\<close>

definition useEffect_channel :: "hook_state \<Rightarrow> hook_state" where
  "useEffect_channel st = st\<lparr>messages := []\<rparr>"

text \<open>
  The effect on \<^verbatim>\<open>[conversation, username]\<close>, up to the \<^verbatim>\<open>await\<close>:
  \<^verbatim>\<open>setIsLoading(true)\<close>, a fresh \<^verbatim>\<open>mounted = true\<close>, \<^verbatim>\<open>pageCursor.current = null\<close>,
  then \<^verbatim>\<open>initMessages()\<close> issues the query with the options it builds from the
  cursor. It returns the new state, the index of the run's \<^verbatim>\<open>mounted\<close> cell and the
  options of the query.
\<close>

definition useEffect_load :: "hook_state \<Rightarrow> hook_state \<times> nat \<times> query_options" where
  "useEffect_load st =
     (let st1 = st\<lparr>isLoading := True\<rparr>;
          k = length (mounted st1);
          st2 = st1\<lparr>mounted := mounted st1 @ [True]\<rparr>;
          st3 = st2\<lparr>pageCursor := None\<rparr>
      in (st3, k, \<lparr>limit = 200, direction = ''backwards'', startId = pageCursor st3\<rparr>))"

definition is_mounted :: "hook_state \<Rightarrow> nat \<Rightarrow> bool" where
  "is_mounted st k = (k < length (mounted st) \<and> mounted st ! k)"

text \<open>
  \<^verbatim>\<open>initMessages\<close> after the \<^verbatim>\<open>await\<close>, for the effect run with cell \<open>k\<close>. A
  rejected query throws out of the \<^verbatim>\<open>async\<close> function before the
  \<^verbatim>\<open>if (mounted)\<close> block.
\<close>

definition initMessages_resume ::
  "nat \<Rightarrow> query_outcome \<Rightarrow> hook_state \<Rightarrow> hook_state \<times> promise" where
  "initMessages_resume k outcome st =
     (case outcome of
        Rejected \<Rightarrow> (st, Unhandled_rejection)
      | Resolved nextMessages \<Rightarrow>
          (if is_mounted st k
           then (st\<lparr>isLoading := False,
                    pageCursor := map_option id' (at_last nextMessages),
                    messages := uniq (nextMessages @ messages st) id'\<rparr>, Fulfilled)
           else (st, Fulfilled)))"

text \<open>The effect's cleanup: \<^verbatim>\<open>mounted = false\<close> in the cell of its run.\<close>

definition cleanup :: "nat \<Rightarrow> hook_state \<Rightarrow> hook_state" where
  "cleanup k st = st\<lparr>mounted := (mounted st)[k := False]\<rparr>"

text \<open>The listeners; each is the updater it passes to \<^verbatim>\<open>setMessages\<close>.\<close>

definition handleAdd :: "message \<Rightarrow> message list \<Rightarrow> message list" where
  "handleAdd message prevMessage = uniq (prevMessage @ [message]) id'"

definition handleUpdate :: "message \<Rightarrow> message list \<Rightarrow> message list" where
  "handleUpdate updated prevMessage =
     map (\<lambda>message. if id' message \<noteq> id' updated then message else updated) prevMessage"

definition handleDelete :: "message \<Rightarrow> message list \<Rightarrow> message list" where
  "handleDelete message prevMessage = filter (\<lambda>m. id' m \<noteq> id' message) prevMessage"

text \<open>
  Modelled from the spec: \<^verbatim>\<open>mapFromUpdate\<close> of \<^verbatim>\<open>@/lib/reaction\<close>, which is not among
  the sources. The specification: on \<^verbatim>\<open>created\<close>, if the message's id is the event's
  \<^verbatim>\<open>messageId\<close>, add \<^verbatim>\<open>{reactorId, reactionId, type}\<close> to the message's reaction
  collection if no entry with the same \<^verbatim>\<open>reactionId\<close> exists; a message whose id
  does not match is returned unchanged. The third argument is the \<^verbatim>\<open>username\<close> the
  listener passes on.
\<close>

definition mapFromUpdate :: "message \<Rightarrow> reaction_event \<Rightarrow> string \<Rightarrow> message" where
  "mapFromUpdate message reaction username =
     (if id' message = messageId reaction
      then (if reactionId reaction \<in> set (map reactor_reactionId (reactions message))
            then message
            else message\<lparr>reactions := reactions message @
                   [\<lparr>reactorId = actorId reaction,
                     reactor_reactionId = reactionId reaction,
                     reactor_type = rtype reaction\<rparr>]\<rparr>)
      else message)"

definition handleReactionAdd ::
  "string \<Rightarrow> reaction_event \<Rightarrow> message list \<Rightarrow> message list" where
  "handleReactionAdd username reaction prevMessage =
     map (\<lambda>message. mapFromUpdate message reaction username) prevMessage"

definition setMessages :: "(message list \<Rightarrow> message list) \<Rightarrow> hook_state \<Rightarrow> hook_state" where
  "setMessages updater st = st\<lparr>messages := updater (messages st)\<rparr>"

text \<open>
  What can happen to a mounted hook, one event at a time: the channel changes, the loading
  effect runs, the cleanup of run \<open>k\<close> runs, the query of run \<open>k\<close> settles, or a
  listener fires with its updater.
\<close>

datatype event =
    Channel_changed
  | Effect_run
  | Effect_cleanup nat
  | Query_settled nat query_outcome
  | Listener_fired "message list \<Rightarrow> message list"

fun step :: "hook_state \<Rightarrow> event \<Rightarrow> hook_state" where
  "step st Channel_changed = useEffect_channel st"
| "step st Effect_run = fst (useEffect_load st)"
| "step st (Effect_cleanup k) = cleanup k st"
| "step st (Query_settled k outcome) = fst (initMessages_resume k outcome st)"
| "step st (Listener_fired updater) = setMessages updater st"

definition run :: "hook_state \<Rightarrow> event list \<Rightarrow> hook_state" where
  "run st evs = foldl step st evs"

text \<open>
  Loading a sequence of pages: for each page the loading effect runs, its query resolves
  with the page, and the run is cleaned up before the next one.
\<close>

fun load_pages :: "hook_state \<Rightarrow> message list list \<Rightarrow> hook_state" where
  "load_pages st [] = st"
| "load_pages st (page # pages) =
     (case useEffect_load st of
        (st1, k, opts) \<Rightarrow>
          load_pages (cleanup k (fst (initMessages_resume k (Resolved page) st1))) pages)"

section \<open>The feed compositor: \<^verbatim>\<open>useMessages\<close>\<close>

text \<open>The anchor handed to \<^verbatim>\<open>useBots\<close>: \<^verbatim>\<open>userConversation?.messages?.[0]?.created_at\<close>.\<close>

definition useMessages_anchor :: "message list \<Rightarrow> nat option" where
  "useMessages_anchor userMessages =
     (case userMessages of [] \<Rightarrow> None | m # _ \<Rightarrow> Some (created_at m))"

text \<open>
  Modelled from the spec: the messages of \<^verbatim>\<open>useBots\<close>, which is not among the
  sources. The specification: a synthetic message's \<^verbatim>\<open>createdAt\<close> is
  \<^verbatim>\<open>anchor + offset\<close>; an entry is emitted once wall-clock time has passed
  \<^verbatim>\<open>anchor + offset\<close>; when the anchor is unknown the generator must not emit. What
  else a synthetic message holds (its id, author, channel, body) is the parameter
  \<open>synthetic\<close>.
\<close>

definition useBots_messages ::
  "(bot_entry \<Rightarrow> message) \<Rightarrow> bot_entry list \<Rightarrow> nat option \<Rightarrow> nat \<Rightarrow> message list" where
  "useBots_messages synthetic script anchor now =
     (case anchor of
        None \<Rightarrow> []
      | Some a \<Rightarrow>
          map (\<lambda>e. (synthetic e)\<lparr>created_at := a + offsetFromAnchor e\<rparr>)
            (filter (\<lambda>e. a + offsetFromAnchor e \<le> now) script))"

text \<open>The memoised \<^verbatim>\<open>messages\<close>; \<^verbatim>\<open>WITH_BOTS\<close> is the module's flag.\<close>

definition useMessages_messages ::
  "bool \<Rightarrow> message list \<Rightarrow> message list \<Rightarrow> message list" where
  "useMessages_messages WITH_BOTS userMessages botMessages =
     uniq (userMessages @ (if WITH_BOTS then botMessages else [])) id'"

text \<open>
  The two actions; the result is the call they make, on the bot feed or on the real
  conversation. \<^verbatim>\<open>message?.\<close> short-circuits to \<^verbatim>\<open>undefined\<close> when \<^verbatim>\<open>find\<close> finds
  nothing, which is falsy in the first test and differs from the channel name in the
  second.
\<close>

datatype backend_call =
    Bot_addReaction string string
  | User_addReaction string string
  | Bot_removeReaction string
  | User_removeReaction string

definition useMessages_addReaction ::
  "bool \<Rightarrow> bot_config \<Rightarrow> message list \<Rightarrow> string \<Rightarrow> string \<Rightarrow> backend_call" where
  "useMessages_addReaction WITH_BOTS botConfig msgs mid ty =
     (let message = find (\<lambda>m. id' m = mid) msgs in
      if WITH_BOTS \<and>
         (case message of None \<Rightarrow> False
          | Some m \<Rightarrow> startsWith (created_by m) (usernamePrefix botConfig))
      then Bot_addReaction mid ty
      else User_addReaction mid ty)"

definition useMessages_removeReaction ::
  "bool \<Rightarrow> bot_config \<Rightarrow> message list \<Rightarrow> string \<Rightarrow> string \<Rightarrow> backend_call" where
  "useMessages_removeReaction WITH_BOTS botConfig msgs mid rid =
     (let message = find (\<lambda>m. id' m = mid) msgs in
      if WITH_BOTS \<and>
         (case message of None \<Rightarrow> False
          | Some m \<Rightarrow> conversation_id m = channelName botConfig)
      then Bot_removeReaction rid
      else User_removeReaction rid)"

section \<open>Facts about \<open>uniq\<close>\<close>

lemma uniq_loop_first_by:
  "uniq_loop f xs seen res = res @ first_by f (set seen) xs"
  by (induction xs arbitrary: seen res) (simp_all add: Let_def)

lemma uniq_first_by: "uniq xs f = first_by f {} xs"
  by (simp add: uniq_def uniq_loop_first_by)

lemma set_first_by_subset: "set (first_by f S xs) \<subseteq> set xs"
  by (induction xs arbitrary: S) auto

lemma keys_first_by: "f ` set (first_by f S xs) = f ` set xs - S"
  by (induction xs arbitrary: S) auto

lemma distinct_first_by: "distinct (map f (first_by f S xs))"
proof (induction xs arbitrary: S)
  case Nil
  show ?case by simp
next
  case (Cons x xs)
  have "f x \<notin> f ` set (first_by f (insert (f x) S) xs)"
    by (simp add: keys_first_by)
  with Cons show ?case by simp
qed

lemma find_first_by:
  "find (\<lambda>m. f m = k) (first_by f S xs) =
     (if k \<in> S then None else find (\<lambda>m. f m = k) xs)"
  by (induction xs arbitrary: S) auto

lemma first_by_append:
  "first_by f S (xs @ ys) = first_by f S xs @ first_by f (S \<union> f ` set xs) ys"
  by (induction xs arbitrary: S) (auto simp: insert_absorb)

lemma first_by_first_by:
  "first_by f S (first_by f T ys) = first_by f (S \<union> T) ys"
  by (induction ys arbitrary: S T) (auto simp: insert_absorb)

lemma first_by_distinct_id:
  "distinct (map f xs) \<Longrightarrow> f ` set xs \<inter> S = {} \<Longrightarrow> first_by f S xs = xs"
  by (induction xs arbitrary: S) auto

lemma sorted_wrt_first_by: "sorted_wrt R xs \<Longrightarrow> sorted_wrt R (first_by f S xs)"
proof (induction xs arbitrary: S)
  case Nil
  show ?case by simp
next
  case (Cons x xs)
  then show ?case using set_first_by_subset[of f _ xs] by auto
qed

lemma count_one:
  assumes "distinct (map f xs)" and "k \<in> f ` set xs"
  shows "length (filter (\<lambda>m. f m = k) xs) = 1"
  using assms
proof (induction xs)
  case Nil
  then show ?case by simp
next
  case (Cons a xs)
  show ?case
  proof (cases "f a = k")
    case True
    with Cons.prems(1) have "k \<notin> f ` set xs" by simp
    then have "filter (\<lambda>m. f m = k) xs = []" by (auto simp: filter_empty_conv)
    with True show ?thesis by simp
  next
    case False
    with Cons show ?thesis by auto
  qed
qed

lemma find_distinct_key:
  "distinct (map f xs) \<Longrightarrow> m \<in> set xs \<Longrightarrow> find (\<lambda>x. f x = f m) xs = Some m"
proof (induction xs)
  case Nil
  then show ?case by simp
next
  case (Cons a xs)
  show ?case
  proof (cases "f a = f m")
    case True
    with Cons.prems have "m = a" by (cases "m = a") force+
    with True show ?thesis by simp
  next
    case False
    with Cons show ?thesis by auto
  qed
qed

lemma find_append_key:
  "find P (xs @ ys) = (case find P xs of None \<Rightarrow> find P ys | Some x \<Rightarrow> Some x)"
  by (induction xs) auto

lemma find_None_key: "k \<notin> f ` set xs \<Longrightarrow> find (\<lambda>x. f x = k) xs = None"
  by (induction xs) auto

lemma find_Some_mem: "find P xs = Some m \<Longrightarrow> m \<in> set xs \<and> P m"
  by (induction xs) (auto split: if_splits)

section \<open>The merged feed\<close>

lemma feed_first_by:
  "useMessages_messages True us bs = first_by id' {} (us @ bs)"
  by (simp add: useMessages_messages_def uniq_first_by)

lemma feed_distinct: "distinct (map id' (useMessages_messages wb us bs))"
  by (simp add: useMessages_messages_def uniq_first_by distinct_first_by)

text \<open>
  C1. With bots enabled the merged feed holds exactly one entry for every id of either
  source and nothing else; an entry whose id occurs in the real list is the real list's
  (first) message of that id, so where a real and a synthetic message share an id the
  feed holds the real one and not the synthetic one.
\<close>

theorem merged_feed_dedup_real_wins:
  assumes "feed = useMessages_messages True us bs"
  shows "distinct (map id' feed)
    \<and> set feed \<subseteq> set us \<union> set bs
    \<and> (\<forall>i. i \<in> id' ` set us \<union> id' ` set bs \<longrightarrow> length (filter (\<lambda>m. id' m = i) feed) = 1)
    \<and> (\<forall>i. i \<in> id' ` set us \<longrightarrow> find (\<lambda>m. id' m = i) feed = find (\<lambda>m. id' m = i) us)
    \<and> (\<forall>r s. r \<in> set us \<and> s \<in> set bs \<and> id' r = id' s \<and> distinct (map id' us)
          \<longrightarrow> r \<in> set feed \<and> (s \<in> set feed \<longrightarrow> s = r))"
proof -
  have fb: "feed = first_by id' {} (us @ bs)"
    using assms by (simp add: feed_first_by)
  have d: "distinct (map id' feed)"
    by (simp add: fb distinct_first_by)
  have sub: "set feed \<subseteq> set us \<union> set bs"
    using set_first_by_subset[of id' "{}" "us @ bs"] by (simp add: fb)
  have keys: "id' ` set feed = id' ` set us \<union> id' ` set bs"
    by (simp add: fb keys_first_by image_Un)
  have one: "length (filter (\<lambda>m. id' m = i) feed) = 1"
    if "i \<in> id' ` set us \<union> id' ` set bs" for i
    using that count_one[OF d, of i] keys by simp
  have fnd: "find (\<lambda>m. id' m = i) feed = find (\<lambda>m. id' m = i) us"
    if "i \<in> id' ` set us" for i
  proof -
    from that obtain r where "r \<in> set us" "id' r = i" by auto
    then have "find (\<lambda>m. id' m = i) us \<noteq> None"
      by (auto simp: find_None_iff)
    then show ?thesis
      by (auto simp: fb find_first_by find_append_key)
  qed
  have win: "r \<in> set feed \<and> (s \<in> set feed \<longrightarrow> s = r)"
    if "r \<in> set us" "s \<in> set bs" "id' r = id' s" "distinct (map id' us)" for r s
  proof -
    have "find (\<lambda>m. id' m = id' r) us = Some r"
      using that(1,4) by (rule find_distinct_key[rotated])
    then have fr: "find (\<lambda>m. id' m = id' r) feed = Some r"
      using fnd[of "id' r"] that(1) by simp
    then have rin: "r \<in> set feed"
      by (auto dest: find_Some_mem)
    have "s = r" if "s \<in> set feed"
    proof -
      have "find (\<lambda>m. id' m = id' s) feed = Some s"
        using d that by (rule find_distinct_key)
      with fr \<open>id' r = id' s\<close> show ?thesis by simp
    qed
    with rin show ?thesis by simp
  qed
  from d sub one fnd win show ?thesis by blast
qed

theorem merged_feed_dedup_real_wins_witness:
  "useMessages_messages True
      [msg ''x'' ''general'' ''anna'' 10, msg ''y'' ''general'' ''ben'' 20]
      [msg ''x'' ''bots'' ''bot-1'' 15, msg ''z'' ''bots'' ''bot-2'' 25]
    = [msg ''x'' ''general'' ''anna'' 10, msg ''y'' ''general'' ''ben'' 20,
       msg ''z'' ''bots'' ''bot-2'' 25]
   \<and> msg ''x'' ''general'' ''anna'' 10 \<in> set (useMessages_messages True
      [msg ''x'' ''general'' ''anna'' 10, msg ''y'' ''general'' ''ben'' 20]
      [msg ''x'' ''bots'' ''bot-1'' 15, msg ''z'' ''bots'' ''bot-2'' 25])
   \<and> length (filter (\<lambda>m. id' m = ''x'') (useMessages_messages True
      [msg ''x'' ''general'' ''anna'' 10, msg ''y'' ''general'' ''ben'' 20]
      [msg ''x'' ''bots'' ''bot-1'' 15, msg ''z'' ''bots'' ''bot-2'' 25])) = 1"
proof -
  let ?us = "[msg ''x'' ''general'' ''anna'' 10, msg ''y'' ''general'' ''ben'' 20]"
  let ?bs = "[msg ''x'' ''bots'' ''bot-1'' 15, msg ''z'' ''bots'' ''bot-2'' 25]"
  note t = merged_feed_dedup_real_wins[OF refl, of ?us ?bs]
  have ev: "useMessages_messages True ?us ?bs
      = [msg ''x'' ''general'' ''anna'' 10, msg ''y'' ''general'' ''ben'' 20,
         msg ''z'' ''bots'' ''bot-2'' 25]"
    by (simp add: useMessages_messages_def uniq_def msg_def)
  have r: "msg ''x'' ''general'' ''anna'' 10 \<in> set ?us"
    and s: "msg ''x'' ''bots'' ''bot-1'' 15 \<in> set ?bs"
    and e: "id' (msg ''x'' ''general'' ''anna'' 10) = id' (msg ''x'' ''bots'' ''bot-1'' 15)"
    and dd: "distinct (map id' ?us)"
    by (simp_all add: msg_def)
  have k: "''x'' \<in> id' ` set ?us \<union> id' ` set ?bs"
    by (simp add: msg_def)
  from t r s e dd have "msg ''x'' ''general'' ''anna'' 10 \<in> set (useMessages_messages True ?us ?bs)"
    by blast
  moreover from t k have "length (filter (\<lambda>m. id' m = ''x'') (useMessages_messages True ?us ?bs)) = 1"
    by blast
  ultimately show ?thesis using ev by simp
qed

section \<open>The real list has distinct ids\<close>

lemma handleAdd_distinct: "distinct (map id' (handleAdd message prevMessage))"
  by (simp add: handleAdd_def uniq_first_by distinct_first_by)

lemma handleUpdate_ids: "map id' (handleUpdate updated prevMessage) = map id' prevMessage"
  by (induction prevMessage) (simp_all add: handleUpdate_def)

lemma handleDelete_distinct:
  "distinct (map id' prevMessage) \<Longrightarrow> distinct (map id' (handleDelete message prevMessage))"
  by (simp add: handleDelete_def distinct_map_filter)

lemma mapFromUpdate_id: "id' (mapFromUpdate message reaction username) = id' message"
  by (simp add: mapFromUpdate_def)

lemma handleReactionAdd_ids:
  "map id' (handleReactionAdd username reaction prevMessage) = map id' prevMessage"
  by (induction prevMessage) (simp_all add: handleReactionAdd_def mapFromUpdate_id)

section \<open>Routing of reactions\<close>

lemma find_in_feed:
  assumes "feed = useMessages_messages wb us bs" and "m \<in> set feed"
  shows "find (\<lambda>x. id' x = id' m) feed = Some m"
proof -
  have "distinct (map id' feed)"
    using assms(1) by (simp add: feed_distinct)
  then show ?thesis
    using assms(2) by (rule find_distinct_key)
qed

text \<open>
  The claim C4 as written has both actions decide by the author. They do not: with bots
  enabled, a message of the feed whose author starts with the prefix and whose channel is
  not the bot channel sends \<^verbatim>\<open>addReaction\<close> to the bot feed and \<^verbatim>\<open>removeReaction\<close> to
  the real conversation.
\<close>

theorem removeReaction_ignores_author_counterexample:
  "msg ''m1'' ''general'' ''bot-anna'' 5
     \<in> set (useMessages_messages True [msg ''m1'' ''general'' ''bot-anna'' 5] [])
   \<and> startsWith (created_by (msg ''m1'' ''general'' ''bot-anna'' 5))
        (usernamePrefix \<lparr>usernamePrefix = ''bot-'', channelName = ''bots''\<rparr>)
   \<and> useMessages_addReaction True \<lparr>usernamePrefix = ''bot-'', channelName = ''bots''\<rparr>
        (useMessages_messages True [msg ''m1'' ''general'' ''bot-anna'' 5] []) ''m1'' ''like''
      = Bot_addReaction ''m1'' ''like''
   \<and> useMessages_removeReaction True \<lparr>usernamePrefix = ''bot-'', channelName = ''bots''\<rparr>
        (useMessages_messages True [msg ''m1'' ''general'' ''bot-anna'' 5] []) ''m1'' ''r1''
      = User_removeReaction ''r1''"
  by (simp add: useMessages_messages_def uniq_def msg_def startsWith_def
      useMessages_addReaction_def useMessages_removeReaction_def)

text \<open>
  C4, amended. For every message of the merged feed, \<^verbatim>\<open>addReaction\<close> on its id goes to
  the bot feed exactly when bots are enabled and the message's author starts with the
  configuration's \<^verbatim>\<open>usernamePrefix\<close>; \<^verbatim>\<open>removeReaction\<close> on its id goes to the bot
  feed exactly when bots are enabled and the message's \<^verbatim>\<open>conversation_id\<close> equals the
  configuration's \<^verbatim>\<open>channelName\<close>; otherwise each goes to the real conversation.
\<close>

theorem reaction_routing_by_provenance:
  assumes "feed = useMessages_messages wb us bs" and "m \<in> set feed"
  shows "useMessages_addReaction wb cfg feed (id' m) ty =
           (if wb \<and> startsWith (created_by m) (usernamePrefix cfg)
            then Bot_addReaction (id' m) ty else User_addReaction (id' m) ty)
       \<and> useMessages_removeReaction wb cfg feed (id' m) rid =
           (if wb \<and> conversation_id m = channelName cfg
            then Bot_removeReaction rid else User_removeReaction rid)"
  using find_in_feed[OF assms]
  by (simp add: useMessages_addReaction_def useMessages_removeReaction_def)

theorem reaction_routing_by_provenance_witness:
  "msg ''b1'' ''bots'' ''bot-1'' 15
     \<in> set (useMessages_messages True [msg ''m1'' ''general'' ''anna'' 10]
              [msg ''b1'' ''bots'' ''bot-1'' 15])
   \<and> useMessages_addReaction True \<lparr>usernamePrefix = ''bot-'', channelName = ''bots''\<rparr>
        (useMessages_messages True [msg ''m1'' ''general'' ''anna'' 10]
              [msg ''b1'' ''bots'' ''bot-1'' 15]) ''b1'' ''like''
      = Bot_addReaction ''b1'' ''like''
   \<and> useMessages_removeReaction True \<lparr>usernamePrefix = ''bot-'', channelName = ''bots''\<rparr>
        (useMessages_messages True [msg ''m1'' ''general'' ''anna'' 10]
              [msg ''b1'' ''bots'' ''bot-1'' 15]) ''b1'' ''r1''
      = Bot_removeReaction ''r1''"
proof -
  let ?feed = "useMessages_messages True [msg ''m1'' ''general'' ''anna'' 10]
              [msg ''b1'' ''bots'' ''bot-1'' 15]"
  have mem: "msg ''b1'' ''bots'' ''bot-1'' 15 \<in> set ?feed"
    by (simp add: useMessages_messages_def uniq_def msg_def)
  from reaction_routing_by_provenance[OF refl mem,
      of "\<lparr>usernamePrefix = ''bot-'', channelName = ''bots''\<rparr>" "''like''" "''r1''"] mem
  show ?thesis
    by (simp add: msg_def startsWith_def)
qed

text \<open>
  C10. For a \<^verbatim>\<open>messageId\<close> that no message of the merged feed carries, both actions call
  the real conversation, whatever the flag and the configuration.
\<close>

theorem unknown_message_routes_to_user:
  assumes "mid \<notin> id' ` set feed"
  shows "useMessages_addReaction wb cfg feed mid ty = User_addReaction mid ty
       \<and> useMessages_removeReaction wb cfg feed mid rid = User_removeReaction rid"
  using find_None_key[OF assms]
  by (simp add: useMessages_addReaction_def useMessages_removeReaction_def)

theorem unknown_message_routes_to_user_witness:
  "''zz'' \<notin> id' ` set (useMessages_messages True [msg ''m1'' ''general'' ''anna'' 10]
              [msg ''b1'' ''bots'' ''bot-1'' 15])
   \<and> useMessages_addReaction True \<lparr>usernamePrefix = ''bot-'', channelName = ''bots''\<rparr>
        (useMessages_messages True [msg ''m1'' ''general'' ''anna'' 10]
              [msg ''b1'' ''bots'' ''bot-1'' 15]) ''zz'' ''like''
      = User_addReaction ''zz'' ''like''
   \<and> useMessages_removeReaction True \<lparr>usernamePrefix = ''bot-'', channelName = ''bots''\<rparr>
        (useMessages_messages True [msg ''m1'' ''general'' ''anna'' 10]
              [msg ''b1'' ''bots'' ''bot-1'' 15]) ''zz'' ''r1''
      = User_removeReaction ''r1''"
proof -
  let ?feed = "useMessages_messages True [msg ''m1'' ''general'' ''anna'' 10]
              [msg ''b1'' ''bots'' ''bot-1'' 15]"
  have absent: "''zz'' \<notin> id' ` set ?feed"
    by (simp add: useMessages_messages_def uniq_def msg_def)
  from unknown_message_routes_to_user[OF absent] absent
  show ?thesis by simp
qed

section \<open>The listeners\<close>

text \<open>
  C8. \<^verbatim>\<open>handleUpdate\<close> keeps the length of the list; at every position it holds the
  updated payload where the old entry's id is the payload's id and the old entry
  otherwise; and when no entry has the payload's id the list is unchanged.
\<close>

theorem handleUpdate_replaces_matching:
  "length (handleUpdate updated xs) = length xs
   \<and> (\<forall>i. i < length xs \<longrightarrow>
         handleUpdate updated xs ! i = (if id' (xs ! i) = id' updated then updated else xs ! i))
   \<and> (id' updated \<notin> id' ` set xs \<longrightarrow> handleUpdate updated xs = xs)"
proof -
  have "handleUpdate updated xs = xs" if "id' updated \<notin> id' ` set xs"
    unfolding handleUpdate_def using that by (induction xs) auto
  then show ?thesis
    by (auto simp: handleUpdate_def)
qed

theorem handleUpdate_replaces_matching_witness:
  "handleUpdate ((msg ''m2'' ''general'' ''ben'' 20)\<lparr>content := ''edited''\<rparr>)
      [msg ''m1'' ''general'' ''anna'' 10, msg ''m2'' ''general'' ''ben'' 20,
       msg ''m3'' ''general'' ''anna'' 30] ! 1
     = (msg ''m2'' ''general'' ''ben'' 20)\<lparr>content := ''edited''\<rparr>
   \<and> handleUpdate ((msg ''m2'' ''general'' ''ben'' 20)\<lparr>content := ''edited''\<rparr>)
      [msg ''m1'' ''general'' ''anna'' 10, msg ''m2'' ''general'' ''ben'' 20,
       msg ''m3'' ''general'' ''anna'' 30] ! 2
     = msg ''m3'' ''general'' ''anna'' 30
   \<and> handleUpdate (msg ''m9'' ''general'' ''ben'' 20)
      [msg ''m1'' ''general'' ''anna'' 10, msg ''m2'' ''general'' ''ben'' 20,
       msg ''m3'' ''general'' ''anna'' 30]
     = [msg ''m1'' ''general'' ''anna'' 10, msg ''m2'' ''general'' ''ben'' 20,
       msg ''m3'' ''general'' ''anna'' 30]"
proof -
  let ?xs = "[msg ''m1'' ''general'' ''anna'' 10, msg ''m2'' ''general'' ''ben'' 20,
       msg ''m3'' ''general'' ''anna'' 30]"
  let ?u = "(msg ''m2'' ''general'' ''ben'' 20)\<lparr>content := ''edited''\<rparr>"
  have absent: "id' (msg ''m9'' ''general'' ''ben'' 20) \<notin> id' ` set ?xs"
    by (simp add: msg_def)
  have a: "handleUpdate ?u ?xs ! 1 = (if id' (?xs ! 1) = id' ?u then ?u else ?xs ! 1)"
    using handleUpdate_replaces_matching[of ?u ?xs] by simp
  have b: "handleUpdate ?u ?xs ! 2 = (if id' (?xs ! 2) = id' ?u then ?u else ?xs ! 2)"
    using handleUpdate_replaces_matching[of ?u ?xs] by simp
  have c: "handleUpdate (msg ''m9'' ''general'' ''ben'' 20) ?xs = ?xs"
    using handleUpdate_replaces_matching[of "msg ''m9'' ''general'' ''ben'' 20" ?xs] absent
    by blast
  from a b c show ?thesis
    by (simp add: msg_def)
qed

section \<open>Loading a page\<close>

lemma useEffect_load_fields:
  assumes "useEffect_load st = (st1, k, opts)"
  shows "messages st1 = messages st" and "isLoading st1" and "pageCursor st1 = None"
    and "k = length (mounted st)" and "mounted st1 = mounted st @ [True]"
    and "startId opts = None"
  using assms by (auto simp: useEffect_load_def Let_def)

lemma useEffect_load_mounted:
  assumes "useEffect_load st = (st1, k, opts)"
  shows "is_mounted st1 k"
  using useEffect_load_fields(4,5)[OF assms] by (simp add: is_mounted_def)

text \<open>
  The claim C2 as written has the loading flag cleared when the query fails. It stays
  set: after the first load of a fresh hook is rejected the state is the one the effect
  left, with \<^verbatim>\<open>isLoading\<close> true, and the rejection is not handled.
\<close>

theorem failed_query_keeps_loading_counterexample:
  "fst (snd (useEffect_load initial_state)) = 0
   \<and> initMessages_resume 0 Rejected (fst (useEffect_load initial_state))
      = (\<lparr>messages = [], isLoading = True, pageCursor = None, mounted = [True]\<rparr>,
         Unhandled_rejection)"
  by (simp add: useEffect_load_def initial_state_def initMessages_resume_def Let_def)

text \<open>
  C2, amended. When the page query of a load is rejected, the state stays as it was when
  the result arrived, whatever happened in between: the message list and the cursor are
  unchanged and so is \<^verbatim>\<open>isLoading\<close>, which the load had set to true (as it had reset
  the cursor to null, leaving the list alone); the rejection is left unhandled.
\<close>

theorem failed_query_leaves_state:
  assumes "useEffect_load st = (st1, k, opts)"
  shows "messages st1 = messages st \<and> pageCursor st1 = None \<and> isLoading st1
       \<and> initMessages_resume k Rejected st1 = (st1, Unhandled_rejection)
       \<and> initMessages_resume k Rejected (run st1 evs) = (run st1 evs, Unhandled_rejection)"
  using useEffect_load_fields(1,2,3)[OF assms]
  by (simp add: initMessages_resume_def)

theorem failed_query_leaves_state_witness:
  "useEffect_load (initial_state\<lparr>messages := [msg ''m1'' ''general'' ''anna'' 10]\<rparr>)
     = (\<lparr>messages = [msg ''m1'' ''general'' ''anna'' 10], isLoading = True,
         pageCursor = None, mounted = [True]\<rparr>, 0,
        \<lparr>limit = 200, direction = ''backwards'', startId = None\<rparr>)
   \<and> initMessages_resume 0 Rejected
       \<lparr>messages = [msg ''m1'' ''general'' ''anna'' 10], isLoading = True,
         pageCursor = None, mounted = [True]\<rparr>
     = (\<lparr>messages = [msg ''m1'' ''general'' ''anna'' 10], isLoading = True,
         pageCursor = None, mounted = [True]\<rparr>, Unhandled_rejection)"
proof -
  have ld: "useEffect_load (initial_state\<lparr>messages := [msg ''m1'' ''general'' ''anna'' 10]\<rparr>)
     = (\<lparr>messages = [msg ''m1'' ''general'' ''anna'' 10], isLoading = True,
         pageCursor = None, mounted = [True]\<rparr>, 0,
        \<lparr>limit = 200, direction = ''backwards'', startId = None\<rparr>)"
    by (simp add: useEffect_load_def initial_state_def Let_def)
  from failed_query_leaves_state[OF ld] ld show ?thesis
    by simp
qed

lemma oldest_is_last:
  "sorted_wrt (\<lambda>a b. created_at b \<le> created_at a) page \<Longrightarrow> m \<in> set page
     \<Longrightarrow> created_at (last page) \<le> created_at m"
  by (induction page) auto

lemma newest_is_last:
  "sorted_wrt (\<lambda>a b. created_at a \<le> created_at b) page \<Longrightarrow> m \<in> set page
     \<Longrightarrow> created_at m \<le> created_at (last page)"
  by (induction page) auto

text \<open>
  The claim C6 as written has the cursor be the id of the oldest fetched message. It is
  the id of the last one: when the first load of a fresh hook resolves with a page in
  chronological order, the cursor is the id of the page's newest message, and an older
  message is in the page.
\<close>

theorem cursor_is_newest_counterexample:
  "is_mounted (fst (useEffect_load initial_state)) 0
   \<and> pageCursor (fst (initMessages_resume 0
        (Resolved [msg ''m1'' ''general'' ''anna'' 10, msg ''m2'' ''general'' ''ben'' 20])
        (fst (useEffect_load initial_state))))
      = Some ''m2''
   \<and> id' (msg ''m1'' ''general'' ''anna'' 10) = ''m1''
   \<and> created_at (msg ''m1'' ''general'' ''anna'' 10)
       < created_at (msg ''m2'' ''general'' ''ben'' 20)"
  by (simp add: useEffect_load_def initial_state_def initMessages_resume_def is_mounted_def
      at_last_def msg_def Let_def)

text \<open>
  C6, amended. When the query of a run that is still mounted resolves with a page, the new
  list is \<^verbatim>\<open>uniq\<close> of the page followed by the old list: its ids are distinct, they are
  the ids of the page and of the old list, every entry comes from one of the two, and an
  id of the page is held by the page's message. The cursor is null for the empty page and
  otherwise the id of the page's last message (\<^verbatim>\<open>nextMessages.at(-1)\<close>): that is an
  oldest fetched message when the page arrives newest first, and a newest one when the
  page arrives in chronological order.
\<close>

theorem page_merge_and_cursor:
  assumes "is_mounted st k"
    and "initMessages_resume k (Resolved page) st = (st', p)"
  shows "messages st' = uniq (page @ messages st) id'
       \<and> distinct (map id' (messages st'))
       \<and> id' ` set (messages st') = id' ` set page \<union> id' ` set (messages st)
       \<and> set (messages st') \<subseteq> set page \<union> set (messages st)
       \<and> (\<forall>i. i \<in> id' ` set page \<longrightarrow>
             find (\<lambda>m. id' m = i) (messages st') = find (\<lambda>m. id' m = i) page)
       \<and> pageCursor st' = (if page = [] then None else Some (id' (last page)))
       \<and> (page \<noteq> [] \<and> sorted_wrt (\<lambda>a b. created_at b \<le> created_at a) page \<longrightarrow>
             pageCursor st' = Some (id' (last page))
             \<and> (\<forall>m. m \<in> set page \<longrightarrow> created_at (last page) \<le> created_at m))
       \<and> (page \<noteq> [] \<and> sorted_wrt (\<lambda>a b. created_at a \<le> created_at b) page \<longrightarrow>
             pageCursor st' = Some (id' (last page))
             \<and> (\<forall>m. m \<in> set page \<longrightarrow> created_at m \<le> created_at (last page)))
       \<and> isLoading st' = False \<and> p = Fulfilled"
proof -
  from assms have st': "st' = st\<lparr>isLoading := False,
        pageCursor := map_option id' (at_last page),
        messages := uniq (page @ messages st) id'\<rparr>" and p: "p = Fulfilled"
    by (auto simp: initMessages_resume_def)
  have ms: "messages st' = first_by id' {} (page @ messages st)"
    by (simp add: st' uniq_first_by)
  have sub: "set (messages st') \<subseteq> set page \<union> set (messages st)"
    using set_first_by_subset[of id' "{}" "page @ messages st"] by (simp add: ms)
  have fnd: "find (\<lambda>m. id' m = i) (messages st') = find (\<lambda>m. id' m = i) page"
    if "i \<in> id' ` set page" for i
  proof -
    from that have "find (\<lambda>m. id' m = i) page \<noteq> None"
      by (auto simp: find_None_iff)
    then show ?thesis
      by (auto simp: ms find_first_by find_append_key)
  qed
  have cur: "pageCursor st' = (if page = [] then None else Some (id' (last page)))"
    by (cases page) (simp_all add: st' at_last_def)
  have "messages st' = uniq (page @ messages st) id'"
    by (simp add: st')
  moreover have "distinct (map id' (messages st'))"
    by (simp add: ms distinct_first_by)
  moreover have "id' ` set (messages st') = id' ` set page \<union> id' ` set (messages st)"
    by (simp add: ms keys_first_by image_Un)
  moreover have "isLoading st' = False"
    by (simp add: st')
  moreover have "pageCursor st' = Some (id' (last page))
      \<and> (\<forall>m. m \<in> set page \<longrightarrow> created_at (last page) \<le> created_at m)"
    if "page \<noteq> [] \<and> sorted_wrt (\<lambda>a b. created_at b \<le> created_at a) page"
    using that cur oldest_is_last[of page] by simp
  moreover have "pageCursor st' = Some (id' (last page))
      \<and> (\<forall>m. m \<in> set page \<longrightarrow> created_at m \<le> created_at (last page))"
    if "page \<noteq> [] \<and> sorted_wrt (\<lambda>a b. created_at a \<le> created_at b) page"
    using that cur newest_is_last[of page] by simp
  ultimately show ?thesis
    using sub fnd cur p by blast
qed

theorem page_merge_and_cursor_witness:
  "is_mounted \<lparr>messages = [msg ''m3'' ''general'' ''anna'' 30], isLoading = True,
        pageCursor = None, mounted = [True]\<rparr> 0
   \<and> initMessages_resume 0
        (Resolved [msg ''m3'' ''general'' ''anna'' 30, msg ''m2'' ''general'' ''ben'' 20,
                   msg ''m1'' ''general'' ''anna'' 10])
        \<lparr>messages = [msg ''m3'' ''general'' ''anna'' 30], isLoading = True,
          pageCursor = None, mounted = [True]\<rparr>
      = (\<lparr>messages = [msg ''m3'' ''general'' ''anna'' 30, msg ''m2'' ''general'' ''ben'' 20,
                      msg ''m1'' ''general'' ''anna'' 10],
          isLoading = False, pageCursor = Some ''m1'', mounted = [True]\<rparr>, Fulfilled)
   \<and> sorted_wrt (\<lambda>a b. created_at b \<le> created_at a)
        [msg ''m3'' ''general'' ''anna'' 30, msg ''m2'' ''general'' ''ben'' 20,
         msg ''m1'' ''general'' ''anna'' 10]
   \<and> created_at (last [msg ''m3'' ''general'' ''anna'' 30, msg ''m2'' ''general'' ''ben'' 20,
         msg ''m1'' ''general'' ''anna'' 10])
       \<le> created_at (msg ''m3'' ''general'' ''anna'' 30)"
proof -
  let ?st = "\<lparr>messages = [msg ''m3'' ''general'' ''anna'' 30], isLoading = True,
        pageCursor = None, mounted = [True]\<rparr>"
  let ?page = "[msg ''m3'' ''general'' ''anna'' 30, msg ''m2'' ''general'' ''ben'' 20,
                   msg ''m1'' ''general'' ''anna'' 10]"
  obtain st' p where r: "initMessages_resume 0 (Resolved ?page) ?st = (st', p)"
    by (cases "initMessages_resume 0 (Resolved ?page) ?st")
  have mt: "is_mounted ?st 0"
    by (simp add: is_mounted_def)
  have same: "mounted st' = [True]"
    using r by (auto simp: initMessages_resume_def mt)
  note t = page_merge_and_cursor[OF mt r]
  have "messages st' = ?page"
    using t by (simp add: uniq_def msg_def)
  moreover have "pageCursor st' = Some ''m1''"
    using t by (simp add: msg_def)
  moreover have "isLoading st' = False" and "p = Fulfilled"
    using t by simp_all
  ultimately have "st' = \<lparr>messages = ?page, isLoading = False, pageCursor = Some ''m1'',
      mounted = [True]\<rparr>"
    using same by (cases st') simp
  moreover have srt: "sorted_wrt (\<lambda>a b. created_at b \<le> created_at a) ?page"
    by (simp add: msg_def)
  moreover have "created_at (last ?page) \<le> created_at (msg ''m3'' ''general'' ''anna'' 30)"
  proof -
    have "msg ''m3'' ''general'' ''anna'' 30 \<in> set ?page" and "?page \<noteq> []" by simp_all
    with t srt show ?thesis by blast
  qed
  ultimately show ?thesis
    using r mt \<open>p = Fulfilled\<close> by simp
qed

section \<open>Teardown\<close>

lemma step_keeps_dead:
  assumes "k < length (mounted st)" and "\<not> mounted st ! k"
  shows "k < length (mounted (step st e)) \<and> \<not> mounted (step st e) ! k"
proof (cases e)
  case Channel_changed
  with assms show ?thesis by (simp add: useEffect_channel_def)
next
  case Effect_run
  with assms show ?thesis by (simp add: useEffect_load_def Let_def nth_append)
next
  case (Effect_cleanup j)
  with assms show ?thesis by (cases "j = k") (simp_all add: cleanup_def)
next
  case (Query_settled j outcome)
  with assms show ?thesis
    by (cases outcome) (simp_all add: initMessages_resume_def)
next
  case (Listener_fired updater)
  with assms show ?thesis by (simp add: setMessages_def)
qed

lemma step_keeps_cell:
  "k < length (mounted st) \<Longrightarrow> k < length (mounted (step st e))"
proof (cases e)
  case (Query_settled j outcome)
  assume "k < length (mounted st)"
  with Query_settled show ?thesis
    by (cases outcome) (simp_all add: initMessages_resume_def)
qed (simp_all add: useEffect_channel_def useEffect_load_def Let_def cleanup_def setMessages_def)

lemma run_keeps_cell:
  "k < length (mounted st) \<Longrightarrow> k < length (mounted (run st evs))"
  unfolding run_def
  by (induction evs arbitrary: st) (simp_all add: step_keeps_cell)

lemma run_keeps_dead:
  "k < length (mounted st) \<Longrightarrow> \<not> mounted st ! k
     \<Longrightarrow> k < length (mounted (run st evs)) \<and> \<not> mounted (run st evs) ! k"
  unfolding run_def
  by (induction evs arbitrary: st) (simp_all add: step_keeps_dead)

text \<open>
  C7. Take the run of the loading effect that issued a query, any events while the query
  is in flight, the cleanup of that run (the channel changed or the view unmounted), and
  any events after it. When the query then settles, with a page or with a rejection, the
  state is what it was: the message list, the cursor and the loading flag are not
  touched.
\<close>

theorem stale_result_discarded:
  assumes "useEffect_load st0 = (st1, k, opts)"
    and "st = run (cleanup k (run st1 evs1)) evs2"
  shows "\<not> is_mounted st k
       \<and> fst (initMessages_resume k outcome st) = st
       \<and> step st (Query_settled k outcome) = st"
proof -
  have "k < length (mounted st1)"
    using useEffect_load_fields(4,5)[OF assms(1)] by simp
  then have "k < length (mounted (run st1 evs1))"
    by (rule run_keeps_cell)
  then have "k < length (mounted (cleanup k (run st1 evs1)))"
    and "\<not> mounted (cleanup k (run st1 evs1)) ! k"
    by (simp_all add: cleanup_def)
  then have "k < length (mounted st) \<and> \<not> mounted st ! k"
    unfolding assms(2) by (rule run_keeps_dead)
  then have dead: "\<not> is_mounted st k"
    by (simp add: is_mounted_def)
  then have "fst (initMessages_resume k outcome st) = st"
    by (cases outcome) (simp_all add: initMessages_resume_def)
  with dead show ?thesis by simp
qed

theorem stale_result_discarded_witness:
  "useEffect_load initial_state
     = (\<lparr>messages = [], isLoading = True, pageCursor = None, mounted = [True]\<rparr>, 0,
        \<lparr>limit = 200, direction = ''backwards'', startId = None\<rparr>)
   \<and> fst (initMessages_resume 0 (Resolved [msg ''m9'' ''general'' ''ben'' 90])
        (run (cleanup 0
               (run \<lparr>messages = [], isLoading = True, pageCursor = None, mounted = [True]\<rparr>
                  [Listener_fired (handleAdd (msg ''m1'' ''general'' ''anna'' 10))]))
           [Channel_changed, Effect_run]))
     = \<lparr>messages = [], isLoading = True, pageCursor = None, mounted = [False, True]\<rparr>"
proof -
  let ?st1 = "\<lparr>messages = [], isLoading = True, pageCursor = None, mounted = [True]\<rparr>"
  let ?st = "run (cleanup 0 (run ?st1
                  [Listener_fired (handleAdd (msg ''m1'' ''general'' ''anna'' 10))]))
           [Channel_changed, Effect_run]"
  have ld: "useEffect_load initial_state
     = (?st1, 0, \<lparr>limit = 200, direction = ''backwards'', startId = None\<rparr>)"
    by (simp add: useEffect_load_def initial_state_def Let_def)
  have ev: "?st = \<lparr>messages = [], isLoading = True, pageCursor = None, mounted = [False, True]\<rparr>"
    by (simp add: run_def cleanup_def setMessages_def useEffect_channel_def
        useEffect_load_def Let_def)
  have "fst (initMessages_resume 0 (Resolved [msg ''m9'' ''general'' ''ben'' 90]) ?st) = ?st"
    using stale_result_discarded[OF ld refl] by blast
  with ld ev show ?thesis by simp
qed

section \<open>Order of the feed\<close>

lemma first_by_append_first_by:
  "first_by f S (xs @ first_by f {} ys) = first_by f S (xs @ ys)"
  by (simp add: first_by_append first_by_first_by)

lemma messages_load_pages:
  "distinct (map id' (messages st)) \<Longrightarrow>
     messages (load_pages st pages) = first_by id' {} (concat (rev pages) @ messages st)"
proof (induction pages arbitrary: st)
  case Nil
  then show ?case by (simp add: first_by_distinct_id)
next
  case (Cons page pages)
  obtain st1 k opts where ld: "useEffect_load st = (st1, k, opts)"
    by (cases "useEffect_load st") auto
  let ?st2 = "cleanup k (fst (initMessages_resume k (Resolved page) st1))"
  have m2: "messages ?st2 = first_by id' {} (page @ messages st)"
    using useEffect_load_mounted[OF ld] useEffect_load_fields(1)[OF ld]
    by (simp add: cleanup_def initMessages_resume_def uniq_first_by)
  have d2: "distinct (map id' (messages ?st2))"
    by (simp only: m2 distinct_first_by)
  have "messages (load_pages st (page # pages)) = messages (load_pages ?st2 pages)"
    by (simp add: ld)
  also have "\<dots> = first_by id' {} (concat (rev pages) @ messages ?st2)"
    by (rule Cons.IH[OF d2])
  also have "\<dots> = first_by id' {} (concat (rev pages) @ page @ messages st)"
    by (simp only: m2 first_by_append_first_by)
  also have "\<dots> = first_by id' {} (concat (rev (page # pages)) @ messages st)"
    by simp
  finally show ?case .
qed

lemma first_by_first_by_append:
  "first_by f S (first_by f {} xs @ ys) = first_by f S (xs @ ys)"
  by (simp add: first_by_append first_by_first_by keys_first_by)

lemma feed_of_loaded_pages:
  "useMessages_messages wb (messages (load_pages initial_state pages)) bs
     = first_by id' {} (concat (rev pages) @ (if wb then bs else []))"
proof -
  have "messages (load_pages initial_state pages) = first_by id' {} (concat (rev pages))"
    using messages_load_pages[of initial_state pages] by (simp add: initial_state_def)
  then show ?thesis
    by (simp only: useMessages_messages_def uniq_first_by first_by_first_by_append)
qed

text \<open>
  The claim C5 as written has the feed in non-decreasing \<^verbatim>\<open>created_at\<close> order. The hook
  neither reverses a page nor sorts the feed. A page that arrives newest first is shown
  newest first; and a page that arrives in chronological order is followed by every bot
  message, also by one that is older than the page's last message.
\<close>

theorem feed_not_chronological_counterexample:
  "sorted (rev (map created_at
      [msg ''m2'' ''general'' ''ben'' 20, msg ''m1'' ''general'' ''anna'' 10]))
   \<and> \<not> sorted (map created_at
        (useMessages_messages True
          (messages (load_pages initial_state
            [[msg ''m2'' ''general'' ''ben'' 20, msg ''m1'' ''general'' ''anna'' 10]])) []))
   \<and> sorted (map created_at
      [msg ''m1'' ''general'' ''anna'' 10, msg ''m3'' ''general'' ''ben'' 100])
   \<and> \<not> sorted (map created_at
        (useMessages_messages True
          (messages (load_pages initial_state
            [[msg ''m1'' ''general'' ''anna'' 10, msg ''m3'' ''general'' ''ben'' 100]]))
          [msg ''b1'' ''bots'' ''bot-1'' 15]))"
  by (simp add: useMessages_messages_def uniq_def msg_def initial_state_def
      useEffect_load_def initMessages_resume_def is_mounted_def cleanup_def Let_def)

text \<open>
  C5, amended. For every sequence of loaded pages, the merged feed is the concatenation of
  the pages as they were fetched, the page loaded last first, followed by the bot messages
  when bots are enabled, with the first entry of every id kept; its messages are in
  non-decreasing \<^verbatim>\<open>created_at\<close> order whenever that concatenation is. The hook neither
  reverses a page nor sorts the feed.
\<close>

theorem feed_is_uniq_of_concatenation:
  "useMessages_messages wb (messages (load_pages initial_state pages)) bs
     = uniq (concat (rev pages) @ (if wb then bs else [])) id'
   \<and> (sorted (map created_at (concat (rev pages) @ (if wb then bs else [])))
        \<longrightarrow> sorted (map created_at
              (useMessages_messages wb (messages (load_pages initial_state pages)) bs)))"
proof -
  let ?all = "concat (rev pages) @ (if wb then bs else [])"
  have eq: "useMessages_messages wb (messages (load_pages initial_state pages)) bs
      = first_by id' {} ?all"
    by (rule feed_of_loaded_pages)
  have "sorted (map created_at (first_by id' {} ?all))"
    if "sorted (map created_at ?all)"
  proof -
    from that have "sorted_wrt (\<lambda>a b. created_at a \<le> created_at b) ?all"
      by (simp only: sorted_map)
    then have "sorted_wrt (\<lambda>a b. created_at a \<le> created_at b) (first_by id' {} ?all)"
      by (rule sorted_wrt_first_by)
    then show ?thesis
      by (simp only: sorted_map)
  qed
  then have "sorted (map created_at ?all)
      \<longrightarrow> sorted (map created_at (first_by id' {} ?all))"
    by blast
  with eq show ?thesis
    by (simp only: uniq_first_by simp_thms)
qed

theorem feed_is_uniq_of_concatenation_witness:
  "sorted (map created_at (concat (rev
       [[msg ''m3'' ''general'' ''ben'' 30, msg ''m4'' ''general'' ''anna'' 40],
        [msg ''m1'' ''general'' ''anna'' 10, msg ''m2'' ''general'' ''ben'' 20]])
       @ (if True then [msg ''b1'' ''bots'' ''bot-1'' 50] else [])))
   \<and> useMessages_messages True (messages (load_pages initial_state
       [[msg ''m3'' ''general'' ''ben'' 30, msg ''m4'' ''general'' ''anna'' 40],
        [msg ''m1'' ''general'' ''anna'' 10, msg ''m2'' ''general'' ''ben'' 20]]))
       [msg ''b1'' ''bots'' ''bot-1'' 50]
     = [msg ''m1'' ''general'' ''anna'' 10, msg ''m2'' ''general'' ''ben'' 20,
        msg ''m3'' ''general'' ''ben'' 30, msg ''m4'' ''general'' ''anna'' 40,
        msg ''b1'' ''bots'' ''bot-1'' 50]
   \<and> sorted (map created_at (useMessages_messages True (messages (load_pages initial_state
       [[msg ''m3'' ''general'' ''ben'' 30, msg ''m4'' ''general'' ''anna'' 40],
        [msg ''m1'' ''general'' ''anna'' 10, msg ''m2'' ''general'' ''ben'' 20]]))
       [msg ''b1'' ''bots'' ''bot-1'' 50]))
   \<and> useMessages_messages True (messages (load_pages initial_state
       [[msg ''m2'' ''general'' ''ben'' 20, msg ''m1'' ''general'' ''anna'' 10]]))
       [msg ''b1'' ''bots'' ''bot-1'' 15]
     = [msg ''m2'' ''general'' ''ben'' 20, msg ''m1'' ''general'' ''anna'' 10,
        msg ''b1'' ''bots'' ''bot-1'' 15]"
proof -
  let ?pages = "[[msg ''m3'' ''general'' ''ben'' 30, msg ''m4'' ''general'' ''anna'' 40],
        [msg ''m1'' ''general'' ''anna'' 10, msg ''m2'' ''general'' ''ben'' 20]]"
  let ?bs = "[msg ''b1'' ''bots'' ''bot-1'' 50]"
  let ?nf = "[[msg ''m2'' ''general'' ''ben'' 20, msg ''m1'' ''general'' ''anna'' 10]]"
  let ?cs = "[msg ''b1'' ''bots'' ''bot-1'' 15]"
  have h: "sorted (map created_at (concat (rev ?pages) @ (if True then ?bs else [])))"
    by (simp add: msg_def)
  note t = feed_is_uniq_of_concatenation[of True ?pages ?bs]
  have e: "useMessages_messages True (messages (load_pages initial_state ?pages)) ?bs
     = [msg ''m1'' ''general'' ''anna'' 10, msg ''m2'' ''general'' ''ben'' 20,
        msg ''m3'' ''general'' ''ben'' 30, msg ''m4'' ''general'' ''anna'' 40,
        msg ''b1'' ''bots'' ''bot-1'' 50]"
    using t by (simp add: uniq_def msg_def)
  have srt: "sorted (map created_at
      (useMessages_messages True (messages (load_pages initial_state ?pages)) ?bs))"
    using t h by blast
  have nf: "useMessages_messages True (messages (load_pages initial_state ?nf)) ?cs
     = [msg ''m2'' ''general'' ''ben'' 20, msg ''m1'' ''general'' ''anna'' 10,
        msg ''b1'' ''bots'' ''bot-1'' 15]"
    using feed_is_uniq_of_concatenation[of True ?nf ?cs] by (simp add: uniq_def msg_def)
  from h e srt nf show ?thesis by simp
qed

section \<open>The anchor of the bot feed\<close>

text \<open>
  The claim C3 as written has the anchor be the earliest loaded message's time. It is the
  first message's time: after a page that arrives newest first, or after two created
  events that arrive against their timestamps, the first message is the later one.
\<close>

theorem anchor_first_not_earliest_counterexample:
  "messages (run initial_state
      [Effect_run,
       Query_settled 0 (Resolved [msg ''m2'' ''general'' ''ben'' 20,
                                  msg ''m1'' ''general'' ''anna'' 10])])
     = [msg ''m2'' ''general'' ''ben'' 20, msg ''m1'' ''general'' ''anna'' 10]
   \<and> messages (run initial_state
      [Listener_fired (handleAdd (msg ''m2'' ''general'' ''ben'' 20)),
       Listener_fired (handleAdd (msg ''m1'' ''general'' ''anna'' 10))])
     = [msg ''m2'' ''general'' ''ben'' 20, msg ''m1'' ''general'' ''anna'' 10]
   \<and> useMessages_anchor [msg ''m2'' ''general'' ''ben'' 20, msg ''m1'' ''general'' ''anna'' 10]
     = Some 20
   \<and> created_at (msg ''m1'' ''general'' ''anna'' 10) = 10"
  by (simp add: run_def useEffect_load_def initMessages_resume_def is_mounted_def Let_def
      initial_state_def setMessages_def handleAdd_def uniq_def msg_def useMessages_anchor_def)

text \<open>
  C3, amended. Whenever at least one real message is loaded, the anchor handed to the bot
  feed is the creation time of the first message of the real list, which is the earliest
  loaded one when the list is in non-decreasing \<^verbatim>\<open>created_at\<close> order; when no real
  message is loaded no anchor is handed over, and the generator emits no synthetic
  message.
\<close>

theorem anchor_is_first_message:
  "(\<forall>m rest. us = m # rest \<longrightarrow>
       useMessages_anchor us = Some (created_at m)
       \<and> (sorted (map created_at us) \<longrightarrow> (\<forall>x. x \<in> set us \<longrightarrow> created_at m \<le> created_at x)))
   \<and> (us = [] \<longrightarrow>
       useMessages_anchor us = None
       \<and> useBots_messages synthetic script (useMessages_anchor us) now = [])"
  by (auto simp: useMessages_anchor_def useBots_messages_def)

theorem anchor_is_first_message_witness:
  "useMessages_anchor [msg ''m1'' ''general'' ''anna'' 10, msg ''m2'' ''general'' ''ben'' 20]
     = Some 10
   \<and> sorted (map created_at
       [msg ''m1'' ''general'' ''anna'' 10, msg ''m2'' ''general'' ''ben'' 20])
   \<and> 10 \<le> created_at (msg ''m2'' ''general'' ''ben'' 20)
   \<and> useBots_messages (\<lambda>e. msg (author e) ''bots'' (author e) 0)
        [\<lparr>offsetFromAnchor = 5, author = ''bot-1'', body = ''hello''\<rparr>]
        (useMessages_anchor []) 1000 = []"
proof -
  let ?us = "[msg ''m1'' ''general'' ''anna'' 10, msg ''m2'' ''general'' ''ben'' 20]"
  have s: "sorted (map created_at ?us)"
    by (simp add: msg_def)
  have a: "useMessages_anchor ?us = Some (created_at (msg ''m1'' ''general'' ''anna'' 10))"
    using anchor_is_first_message[of ?us] by blast
  have b: "created_at (msg ''m1'' ''general'' ''anna'' 10)
      \<le> created_at (msg ''m2'' ''general'' ''ben'' 20)"
    using anchor_is_first_message[of ?us] s by auto
  have c: "useBots_messages (\<lambda>e. msg (author e) ''bots'' (author e) 0)
        [\<lparr>offsetFromAnchor = 5, author = ''bot-1'', body = ''hello''\<rparr>]
        (useMessages_anchor []) 1000 = []"
    using anchor_is_first_message[of "[]"] by blast
  from a b c s show ?thesis
    by (simp add: msg_def)
qed

section \<open>Reactions\<close>

lemma mapFromUpdate_twice:
  "mapFromUpdate (mapFromUpdate m reaction username) reaction username
     = mapFromUpdate m reaction username"
  by (simp add: mapFromUpdate_def)

text \<open>
  C9. Applying a reaction-created event to a list of messages twice gives what applying it
  once gives, and so for a single message: the entry is appended to the message the event
  names only when no entry of that message has the event's \<^verbatim>\<open>reactionId\<close>; a message
  that has one, and a message the event does not name, are returned as they are.
\<close>

theorem handleReactionAdd_idempotent:
  "handleReactionAdd username reaction (handleReactionAdd username reaction ms)
     = handleReactionAdd username reaction ms
   \<and> mapFromUpdate (mapFromUpdate m reaction username) reaction username
     = mapFromUpdate m reaction username
   \<and> (reactionId reaction \<in> reactor_reactionId ` set (reactions m)
        \<longrightarrow> mapFromUpdate m reaction username = m)
   \<and> (id' m \<noteq> messageId reaction \<longrightarrow> mapFromUpdate m reaction username = m)
   \<and> (id' m = messageId reaction
        \<and> reactionId reaction \<notin> reactor_reactionId ` set (reactions m)
        \<longrightarrow> mapFromUpdate m reaction username
            = m\<lparr>reactions := reactions m @
                 [\<lparr>reactorId = actorId reaction, reactor_reactionId = reactionId reaction,
                   reactor_type = rtype reaction\<rparr>]\<rparr>)"
proof -
  have "handleReactionAdd username reaction (handleReactionAdd username reaction ms)
     = handleReactionAdd username reaction ms"
    by (simp add: handleReactionAdd_def mapFromUpdate_twice)
  then show ?thesis
    by (simp add: mapFromUpdate_def)
qed

theorem handleReactionAdd_idempotent_witness:
  "handleReactionAdd ''u1''
      \<lparr>messageId = ''m1'', reactionId = ''r1'', rtype = ''emoji'', actorId = ''u2''\<rparr>
      [msg ''m1'' ''general'' ''anna'' 10, msg ''m2'' ''general'' ''ben'' 20]
     = [(msg ''m1'' ''general'' ''anna'' 10)
          \<lparr>reactions := [\<lparr>reactorId = ''u2'', reactor_reactionId = ''r1'',
                           reactor_type = ''emoji''\<rparr>]\<rparr>,
        msg ''m2'' ''general'' ''ben'' 20]
   \<and> handleReactionAdd ''u1''
      \<lparr>messageId = ''m1'', reactionId = ''r1'', rtype = ''emoji'', actorId = ''u2''\<rparr>
      (handleReactionAdd ''u1''
        \<lparr>messageId = ''m1'', reactionId = ''r1'', rtype = ''emoji'', actorId = ''u2''\<rparr>
        [msg ''m1'' ''general'' ''anna'' 10, msg ''m2'' ''general'' ''ben'' 20])
     = [(msg ''m1'' ''general'' ''anna'' 10)
          \<lparr>reactions := [\<lparr>reactorId = ''u2'', reactor_reactionId = ''r1'',
                           reactor_type = ''emoji''\<rparr>]\<rparr>,
        msg ''m2'' ''general'' ''ben'' 20]
   \<and> mapFromUpdate
        ((msg ''m1'' ''general'' ''anna'' 10)
          \<lparr>reactions := [\<lparr>reactorId = ''u2'', reactor_reactionId = ''r1'',
                           reactor_type = ''emoji''\<rparr>]\<rparr>)
        \<lparr>messageId = ''m1'', reactionId = ''r1'', rtype = ''emoji'', actorId = ''u2''\<rparr> ''u1''
     = (msg ''m1'' ''general'' ''anna'' 10)
          \<lparr>reactions := [\<lparr>reactorId = ''u2'', reactor_reactionId = ''r1'',
                           reactor_type = ''emoji''\<rparr>]\<rparr>
   \<and> mapFromUpdate (msg ''m2'' ''general'' ''ben'' 20)
        \<lparr>messageId = ''m1'', reactionId = ''r1'', rtype = ''emoji'', actorId = ''u2''\<rparr> ''u1''
     = msg ''m2'' ''general'' ''ben'' 20"
proof -
  let ?r = "\<lparr>messageId = ''m1'', reactionId = ''r1'', rtype = ''emoji'', actorId = ''u2''\<rparr>"
  let ?ms = "[msg ''m1'' ''general'' ''anna'' 10, msg ''m2'' ''general'' ''ben'' 20]"
  let ?m1 = "msg ''m1'' ''general'' ''anna'' 10"
  let ?m1r = "?m1\<lparr>reactions := [\<lparr>reactorId = ''u2'', reactor_reactionId = ''r1'',
                           reactor_type = ''emoji''\<rparr>]\<rparr>"
  let ?m2 = "msg ''m2'' ''general'' ''ben'' 20"
  have fresh: "id' ?m1 = messageId ?r
      \<and> reactionId ?r \<notin> reactor_reactionId ` set (reactions ?m1)"
    by (simp add: msg_def)
  have first: "mapFromUpdate ?m1 ?r ''u1'' = ?m1r"
    using handleReactionAdd_idempotent[of "''u1''" ?r ?ms ?m1] fresh
    by (simp add: msg_def)
  have other: "id' ?m2 \<noteq> messageId ?r"
    by (simp add: msg_def)
  have second: "mapFromUpdate ?m2 ?r ''u1'' = ?m2"
    using handleReactionAdd_idempotent[of "''u1''" ?r ?ms ?m2] other by blast
  have once: "handleReactionAdd ''u1'' ?r ?ms = [?m1r, ?m2]"
    by (simp add: handleReactionAdd_def first second)
  have twice: "handleReactionAdd ''u1'' ?r (handleReactionAdd ''u1'' ?r ?ms)
     = handleReactionAdd ''u1'' ?r ?ms"
    using handleReactionAdd_idempotent[of "''u1''" ?r ?ms ?m1] by blast
  have present: "reactionId ?r \<in> reactor_reactionId ` set (reactions ?m1r)"
    by simp
  have dup: "mapFromUpdate ?m1r ?r ''u1'' = ?m1r"
    using handleReactionAdd_idempotent[of "''u1''" ?r ?ms ?m1r] present by blast
  from once twice dup second show ?thesis by simp
qed

end
